theory Spec2Isabelle
  imports Complex_Main
begin

section \<open>Data model (models/Event.js)\<close>

text \<open>
  An ObjectId is written as a string of 24 hexadecimal digits and printed by
  \<open>toString()\<close> in lower case. A string is cast to an ObjectId when it has that form,
  whatever the case of its digits; any other string makes the cast throw.
\<close>

definition lower_hex :: "char \<Rightarrow> bool" where
  "lower_hex c = (c \<in> set ''0123456789abcdef'')"

definition hex :: "char \<Rightarrow> bool" where
  "hex c = (c \<in> set ''0123456789abcdefABCDEF'')"

definition to_lower :: "char \<Rightarrow> char" where
  "to_lower c =
     (if c = CHR ''A'' then CHR ''a'' else if c = CHR ''B'' then CHR ''b''
      else if c = CHR ''C'' then CHR ''c'' else if c = CHR ''D'' then CHR ''d''
      else if c = CHR ''E'' then CHR ''e'' else if c = CHR ''F'' then CHR ''f'' else c)"

typedef oid = "{s :: string. length s = 24 \<and> list_all lower_hex s}"
  morphisms toString ObjectId
  by (rule exI [of _ "replicate 24 CHR ''0''"]) (simp add: lower_hex_def list_all_iff)

definition cast_id :: "string \<Rightarrow> oid option" where
  "cast_id s =
     (if length s = 24 \<and> list_all hex s then Some (ObjectId (map to_lower s)) else None)"

text \<open>
  The identifier of a user is the one the authentication middleware has verified and put
  in \<open>req.userId\<close>; the middleware and the users' collection are not part of this model,
  and the identifier is kept as the string it arrives as.

  The schema makes \<open>title\<close>, \<open>description\<close>, \<open>date\<close> and \<open>location\<close> required;
  \<open>capacity\<close>, \<open>image\<close> and \<open>createdBy\<close> may be absent, which is \<open>None\<close> here.
  \<open>capacity\<close> is a JavaScript Number: any number, not only a non-negative integer.
  \<open>attendees\<close> is an array, so it is a list: order and repetitions are visible in the
  model.
\<close>

type_synonym uid = string

record Event =
  title :: string
  description :: string
  date :: string
  location :: string
  capacity :: "real option"
  image_file :: "string option"
  attendees :: "uid list"
  createdBy :: "uid option"

text \<open>The collection of events, keyed by \<open>_id\<close>.\<close>

type_synonym store = "oid \<rightharpoonup> Event"

text \<open>
  The value of \<open>req.body.capacity\<close>. A JSON body gives a number; a multipart form (the
  create and update routes run behind the upload middleware) gives a string, which is
  either empty, or one that \<open>Number()\<close> reads as a number, or some other text.
\<close>

datatype body_number =
    JNumber real
  | NumericString real
  | EmptyString
  | OtherString

text \<open>The fields of \<open>req.body\<close> that the handlers read; an absent field is \<open>None\<close>.\<close>

record EventBody =
  body_title :: "string option"
  body_description :: "string option"
  body_date :: "string option"
  body_location :: "string option"
  body_capacity :: "body_number option"

text \<open>A response is the HTTP status with the JSON document sent.\<close>

datatype json =
    Message string
  | MessageCount string nat
  | MessageEvent string Event
  | Document Event

type_synonym response = "nat \<times> json"

section \<open>The store's update primitives\<close>

text \<open>
  \<open>findOneAndUpdate({_id: id, ...filter}, update, {new: true})\<close>: one indivisible
  operation of the store. It finds the document with that \<open>_id\<close>; when the document
  exists and satisfies the filter, the update is applied and the updated document is
  returned; otherwise nothing is written (there is no upsert) and the result is null.
\<close>

definition findOneAndUpdate ::
  "store \<Rightarrow> oid \<Rightarrow> (Event \<Rightarrow> bool) \<Rightarrow> (Event \<Rightarrow> Event) \<Rightarrow> store \<times> Event option" where
  "findOneAndUpdate st eventId matches update =
     (case st eventId of
        None \<Rightarrow> (st, None)
      | Some e \<Rightarrow>
          if matches e then (st(eventId \<mapsto> update e), Some (update e)) else (st, None))"

definition findByIdAndUpdate ::
  "store \<Rightarrow> oid \<Rightarrow> (Event \<Rightarrow> Event) \<Rightarrow> store \<times> Event option" where
  "findByIdAndUpdate st eventId update = findOneAndUpdate st eventId (\<lambda>e. True) update"

text \<open>\<open>$addToSet\<close> appends a value the array does not hold; \<open>$pull\<close> removes every
  occurrence of a value.\<close>

definition addToSet :: "'a \<Rightarrow> 'a list \<Rightarrow> 'a list" where
  "addToSet x xs = (if x \<in> set xs then xs else xs @ [x])"

definition pull :: "'a \<Rightarrow> 'a list \<Rightarrow> 'a list" where
  "pull x xs = filter (\<lambda>y. y \<noteq> x) xs"

text \<open>
  The filter of the registration: \<open>attendees: {$ne: userId}\<close> holds when no element of
  the array equals \<open>userId\<close>; \<open>$expr: {$lt: [{$size: "$attendees"}, "$capacity"]}\<close>
  compares the array's length with the stored capacity. \<open>$lt\<close> compares in the store's
  order of types, where a missing or null value is below every number: against an absent
  capacity the comparison is false.
\<close>

definition size_lt_capacity :: "Event \<Rightarrow> bool" where
  "size_lt_capacity e =
     (case capacity e of
        None \<Rightarrow> False
      | Some c \<Rightarrow> real (length (attendees e)) < c)"

definition register_filter :: "uid \<Rightarrow> Event \<Rightarrow> bool" where
  "register_filter userId e = (userId \<notin> set (attendees e) \<and> size_lt_capacity e)"

section \<open>The handlers (routes/eventRoutes.js)\<close>

text \<open>\<open>req.body.title || event.title\<close>: the left operand unless it is falsy (absent or
  the empty string).\<close>

definition or_string :: "string option \<Rightarrow> string \<Rightarrow> string" where
  "or_string v old = (case v of None \<Rightarrow> old | Some s \<Rightarrow> if s = [] then old else s)"

text \<open>
  Truthiness of the capacity field: an absent value, the empty string and the number 0
  are falsy; every non-empty string is truthy, the string \<open>"0"\<close> too.
\<close>

fun truthy :: "body_number option \<Rightarrow> bool" where
  "truthy None = False"
| "truthy (Some (JNumber c)) = (c \<noteq> 0)"
| "truthy (Some (NumericString c)) = True"
| "truthy (Some EmptyString) = False"
| "truthy (Some OtherString) = True"

text \<open>
  The schema's cast of a value to Number: a number is itself, a numeric string is the
  number it reads as, the empty string is null, and any other string makes the cast
  fail, which \<open>save\<close> then throws as a validation error.
\<close>

datatype 'a cast = CastError | Cast 'a

fun castNumber :: "body_number option \<Rightarrow> real option cast" where
  "castNumber None = Cast None"
| "castNumber (Some (JNumber c)) = Cast (Some c)"
| "castNumber (Some (NumericString c)) = Cast (Some c)"
| "castNumber (Some EmptyString) = Cast None"
| "castNumber (Some OtherString) = CastError"

text \<open>\<open>req.body.capacity || event.capacity\<close>, as the schema then casts it.\<close>

definition or_number :: "body_number option \<Rightarrow> real option \<Rightarrow> real option cast" where
  "or_number v old = (if truthy v then castNumber v else Cast old)"

text \<open>The schema's \<open>required: true\<close>: the validator of \<open>save\<close> refuses an absent or
  empty value.\<close>

definition required :: "string option \<Rightarrow> bool" where
  "required v = (case v of None \<Rightarrow> False | Some s \<Rightarrow> s \<noteq> [])"

text \<open>
  POST /: the new document gets the identifier \<open>newId\<close> drawn by the driver, the
  requester as \<open>createdBy\<close> and an empty \<open>attendees\<close>. A failed validation or cast, or
  an identifier already in the collection, makes \<open>save\<close> throw: status 500, nothing
  stored.
\<close>

definition create_event ::
  "store \<Rightarrow> oid \<Rightarrow> uid \<Rightarrow> EventBody \<Rightarrow> string option \<Rightarrow> store \<times> response" where
  "create_event st newId userId body file =
     (case castNumber (body_capacity body) of
        CastError \<Rightarrow> (st, (500, Message ''Event creation failed''))
      | Cast cap \<Rightarrow>
          if required (body_title body) \<and> required (body_description body)
             \<and> required (body_date body) \<and> required (body_location body)
             \<and> st newId = None
          then
            (let event = \<lparr> title = the (body_title body),
                            description = the (body_description body),
                            date = the (body_date body),
                            location = the (body_location body),
                            capacity = cap,
                            image_file = file,
                            attendees = [],
                            createdBy = Some userId \<rparr>
             in (st(newId \<mapsto> event), (201, Document event)))
          else (st, (500, Message ''Event creation failed'')))"

text \<open>
  POST /register/:id. The route parameter is a string; casting it to the \<open>_id\<close> of the
  filter throws when it is not an ObjectId, and the handler's \<open>catch\<close> answers 500.
\<close>

definition register :: "store \<Rightarrow> string \<Rightarrow> uid \<Rightarrow> store \<times> response" where
  "register st rawId userId =
     (case cast_id rawId of
        None \<Rightarrow> (st, (500, Message ''Failed to register for event''))
      | Some eventId \<Rightarrow>
          (case findOneAndUpdate st eventId (register_filter userId)
                  (\<lambda>e. e\<lparr>attendees := addToSet userId (attendees e)\<rparr>) of
             (st', None) \<Rightarrow> (st', (400, Message ''Event is full or already registered''))
           | (st', Some event) \<Rightarrow>
               (st', (200, MessageCount ''Registered successfully''
                             (length (attendees event))))))"

text \<open>DELETE /register/:id, with the same cast and \<open>catch\<close>.\<close>

definition unregister :: "store \<Rightarrow> string \<Rightarrow> uid \<Rightarrow> store \<times> response" where
  "unregister st rawId userId =
     (case cast_id rawId of
        None \<Rightarrow> (st, (500, Message ''Failed to unregister''))
      | Some eventId \<Rightarrow>
          (case findByIdAndUpdate st eventId
                  (\<lambda>e. e\<lparr>attendees := pull userId (attendees e)\<rparr>) of
             (st', None) \<Rightarrow> (st', (404, Message ''Event not found''))
           | (st', Some event) \<Rightarrow>
               (st', (200, MessageCount ''Unregistered successfully''
                             (length (attendees event))))))"

text \<open>
  PUT /:id. \<open>findById\<close> throws on a parameter that is not an ObjectId,
  \<open>event.createdBy.toString()\<close> throws on an event without \<open>createdBy\<close>, and \<open>save\<close>
  throws when the capacity cannot be cast; the handler's \<open>catch\<close> turns each into
  status 500, with nothing stored.
\<close>

definition update_event ::
  "store \<Rightarrow> string \<Rightarrow> uid \<Rightarrow> EventBody \<Rightarrow> string option \<Rightarrow> store \<times> response" where
  "update_event st rawId userId body file =
     (case cast_id rawId of
        None \<Rightarrow> (st, (500, Message ''Event update failed''))
      | Some eventId \<Rightarrow>
          (case st eventId of
             None \<Rightarrow> (st, (404, Message ''Event not found''))
           | Some event \<Rightarrow>
               (case createdBy event of
                  None \<Rightarrow> (st, (500, Message ''Event update failed''))
                | Some owner \<Rightarrow>
                    if owner \<noteq> userId then (st, (403, Message ''Unauthorized''))
                    else
                      (case or_number (body_capacity body) (capacity event) of
                         CastError \<Rightarrow> (st, (500, Message ''Event update failed''))
                       | Cast cap \<Rightarrow>
                           (let event' = event
                                  \<lparr> title := or_string (body_title body) (title event),
                                    description :=
                                      or_string (body_description body) (description event),
                                    date := or_string (body_date body) (date event),
                                    location :=
                                      or_string (body_location body) (location event),
                                    capacity := cap,
                                    image_file := (case file of None \<Rightarrow> image_file event
                                                   | Some f \<Rightarrow> Some f) \<rparr>
                            in (st(eventId \<mapsto> event'),
                                (200, MessageEvent ''Event updated successfully'' event')))))))"

text \<open>DELETE /:id.\<close>

definition delete_event :: "store \<Rightarrow> string \<Rightarrow> uid \<Rightarrow> store \<times> response" where
  "delete_event st rawId userId =
     (case cast_id rawId of
        None \<Rightarrow> (st, (500, Message ''Event deletion failed''))
      | Some eventId \<Rightarrow>
          (case st eventId of
             None \<Rightarrow> (st, (404, Message ''Event not found''))
           | Some event \<Rightarrow>
               (case createdBy event of
                  None \<Rightarrow> (st, (500, Message ''Event deletion failed''))
                | Some owner \<Rightarrow>
                    if owner \<noteq> userId then (st, (403, Message ''Unauthorized''))
                    else (st(eventId := None),
                          (200, Message ''Event deleted successfully'')))))"

section \<open>Sequences of requests\<close>

text \<open>
  Every write of a handler is one operation of the store, so requests that race are
  served in some order: a run is a list of requests, each served on the store the
  previous one left. An update reads the event and then saves it; the save writes the
  fields the handler assigned, so the request is served at its save. The store is taken
  to answer every operation; a round-trip that fails is outside the model.
\<close>

datatype request =
    CreateEvent oid uid EventBody "string option"
  | Register string uid
  | Unregister string uid
  | UpdateEvent string uid EventBody "string option"
  | DeleteEvent string uid

fun serve :: "store \<Rightarrow> request \<Rightarrow> store \<times> response" where
  "serve st (CreateEvent newId userId body file) = create_event st newId userId body file"
| "serve st (Register rawId userId) = register st rawId userId"
| "serve st (Unregister rawId userId) = unregister st rawId userId"
| "serve st (UpdateEvent rawId userId body file) = update_event st rawId userId body file"
| "serve st (DeleteEvent rawId userId) = delete_event st rawId userId"

fun serve_all :: "store \<Rightarrow> request list \<Rightarrow> store \<times> response list" where
  "serve_all st [] = (st, [])"
| "serve_all st (r # rs) =
     (case serve st r of
        (st1, resp) \<Rightarrow> (case serve_all st1 rs of (st2, resps) \<Rightarrow> (st2, resp # resps)))"

section \<open>Predicates of the ledger\<close>

text \<open>No user identifier occurs twice among the attendees of any stored event.\<close>

definition unique_attendees :: "store \<Rightarrow> bool" where
  "unique_attendees st = (\<forall>eventId e. st eventId = Some e \<longrightarrow> distinct (attendees e))"

text \<open>A registration is accepted with status 200 and rejected with status 400.\<close>

definition accepted :: "response \<Rightarrow> bool" where
  "accepted resp = (fst resp = 200)"

definition rejected :: "response \<Rightarrow> bool" where
  "rejected resp = (fst resp = 400)"

text \<open>
  The capacity bound of one event: when a capacity is stored, the number of attendees is
  at most that capacity.
\<close>

definition capacity_ok :: "Event \<Rightarrow> bool" where
  "capacity_ok e =
     (case capacity e of None \<Rightarrow> True | Some c \<Rightarrow> real (length (attendees e)) \<le> c)"

text \<open>
  The number a capacity field stands for, if any. The data model of the specification
  takes a capacity to be a non-negative integer. A creation is admissible when the
  capacity it gives, if it stands for a number, is one. An update of an existing event by
  its owner is admissible when the capacity it gives, if it stands for a number, is an
  integer not below the number of attendees the event has at that moment. Every other
  request is admissible. A run is admissible when each request is, in the store it is
  served on.
\<close>

fun denoted :: "body_number option \<Rightarrow> real option" where
  "denoted (Some (JNumber c)) = Some c"
| "denoted (Some (NumericString c)) = Some c"
| "denoted v = None"

definition is_integer :: "real \<Rightarrow> bool" where
  "is_integer c = (real_of_int \<lfloor>c\<rfloor> = c)"

fun admissible :: "store \<Rightarrow> request \<Rightarrow> bool" where
  "admissible st (CreateEvent newId userId body file) =
     (case denoted (body_capacity body) of
        None \<Rightarrow> True
      | Some c \<Rightarrow> is_integer c \<and> 0 \<le> c)"
| "admissible st (UpdateEvent rawId userId body file) =
     (case cast_id rawId of
        None \<Rightarrow> True
      | Some eventId \<Rightarrow>
          (case st eventId of
             None \<Rightarrow> True
           | Some e \<Rightarrow>
               if createdBy e = Some userId
               then (case denoted (body_capacity body) of
                       None \<Rightarrow> True
                     | Some c \<Rightarrow> is_integer c \<and> real (length (attendees e)) \<le> c)
               else True))"
| "admissible st (Register rawId userId) = True"
| "admissible st (Unregister rawId userId) = True"
| "admissible st (DeleteEvent rawId userId) = True"

fun admissible_all :: "store \<Rightarrow> request list \<Rightarrow> bool" where
  "admissible_all st [] = True"
| "admissible_all st (r # rs) = (admissible st r \<and> admissible_all (fst (serve st r)) rs)"

text \<open>The bound together with the integrality it is preserved under.\<close>

definition capacity_sound :: "store \<Rightarrow> bool" where
  "capacity_sound st =
     (\<forall>eventId e c. st eventId = Some e \<and> capacity e = Some c \<longrightarrow>
        is_integer c \<and> real (length (attendees e)) \<le> c)"

section \<open>Sample data\<close>

definition event1 :: oid where
  "event1 = ObjectId ''65a1f0c2d3e4b5a697887701''"

definition event2 :: oid where
  "event2 = ObjectId ''65a1f0c2d3e4b5a697887702''"

definition conference :: Event where
  "conference =
     \<lparr> title = ''Conference'', description = ''Annual meeting'', date = ''2026-01-15'',
       location = ''Hall A'', capacity = Some 2, image_file = None, attendees = [],
       createdBy = Some ''owner'' \<rparr>"

definition open_house :: Event where
  "open_house =
     \<lparr> title = ''Open house'', description = ''Drop in'', date = ''2026-02-01'',
       location = ''Lobby'', capacity = None, image_file = None, attendees = [],
       createdBy = Some ''owner'' \<rparr>"

definition conference_body :: "body_number option \<Rightarrow> EventBody" where
  "conference_body cap =
     \<lparr> body_title = Some ''Conference'', body_description = Some ''Annual meeting'',
       body_date = Some ''2026-01-15'', body_location = Some ''Hall A'',
       body_capacity = cap \<rparr>"

definition empty_body :: "body_number option \<Rightarrow> EventBody" where
  "empty_body cap =
     \<lparr> body_title = None, body_description = None, body_date = None, body_location = None,
       body_capacity = cap \<rparr>"

text \<open>Runs of requests from the empty collection.\<close>

definition rsvp_requests :: "request list" where
  "rsvp_requests =
     [CreateEvent event1 ''owner'' (conference_body (Some (NumericString 2))) None,
      Register (toString event1) ''alice'', Register (toString event1) ''alice'',
      Unregister (toString event1) ''carol'',
      Register (toString event1) ''bob'', Register (toString event1) ''carol'']"

definition shrink_requests :: "request list" where
  "shrink_requests =
     [CreateEvent event1 ''owner'' (conference_body (Some (NumericString 2))) None,
      Register (toString event1) ''alice'', Register (toString event1) ''bob'',
      UpdateEvent (toString event1) ''owner'' (empty_body (Some (NumericString 1))) None]"

definition grow_requests :: "request list" where
  "grow_requests =
     [CreateEvent event1 ''owner'' (conference_body (Some (NumericString 1))) None,
      Register (toString event1) ''alice'', Register (toString event1) ''bob'',
      UpdateEvent (toString event1) ''owner'' (empty_body (Some (NumericString 2))) None,
      Register (toString event1) ''bob'', Unregister (toString event1) ''alice'']"

section \<open>Identifiers\<close>

lemma lower_hex_is_hex: "lower_hex c \<Longrightarrow> hex c"
  by (auto simp: lower_hex_def hex_def)

lemma to_lower_lower_hex: "lower_hex c \<Longrightarrow> to_lower c = c"
  by (auto simp: lower_hex_def to_lower_def)

lemma cast_toString [simp]: "cast_id (toString i) = Some i"
proof -
  from toString [of i] have len: "length (toString i) = 24"
    and low: "list_all lower_hex (toString i)"
    by simp_all
  from low have "list_all hex (toString i)"
    by (auto simp: list_all_iff intro: lower_hex_is_hex)
  moreover from low have "map to_lower (toString i) = toString i"
    by (auto simp: list_all_iff intro!: map_idI to_lower_lower_hex)
  ultimately show ?thesis
    using len by (simp add: cast_id_def toString_inverse)
qed

lemma cast_malformed: "cast_id ''X'' = None"
  by (simp add: cast_id_def)

lemma event1_string: "toString event1 = ''65a1f0c2d3e4b5a697887701''"
  by (simp add: event1_def ObjectId_inverse lower_hex_def)

lemma event2_string: "toString event2 = ''65a1f0c2d3e4b5a697887702''"
  by (simp add: event2_def ObjectId_inverse lower_hex_def)

lemma event1_not_event2: "event1 \<noteq> event2" "event2 \<noteq> event1"
  using event1_string event2_string by auto

section \<open>The primitives on one event\<close>

lemma register_found:
  assumes "st eventId = Some e"
  shows "register st (toString eventId) userId =
     (if register_filter userId e
      then (st(eventId \<mapsto> e\<lparr>attendees := attendees e @ [userId]\<rparr>),
            (200, MessageCount ''Registered successfully'' (Suc (length (attendees e)))))
      else (st, (400, Message ''Event is full or already registered'')))"
  using assms
  by (simp add: register_def findOneAndUpdate_def register_filter_def addToSet_def)

lemma register_missing:
  assumes "st eventId = None"
  shows "register st (toString eventId) userId =
     (st, (400, Message ''Event is full or already registered''))"
  using assms by (simp add: register_def findOneAndUpdate_def)

lemma register_malformed:
  assumes "cast_id rawId = None"
  shows "register st rawId userId = (st, (500, Message ''Failed to register for event''))"
  using assms by (simp add: register_def)

lemma register_cast:
  assumes "cast_id rawId = Some eventId"
  shows "register st rawId userId = register st (toString eventId) userId"
  using assms by (simp add: register_def)

lemma unregister_found:
  assumes "st eventId = Some e"
  shows "unregister st (toString eventId) userId =
     (st(eventId \<mapsto> e\<lparr>attendees := pull userId (attendees e)\<rparr>),
      (200, MessageCount ''Unregistered successfully'' (length (pull userId (attendees e)))))"
  using assms by (simp add: unregister_def findByIdAndUpdate_def findOneAndUpdate_def)

lemma unregister_missing:
  assumes "st eventId = None"
  shows "unregister st (toString eventId) userId = (st, (404, Message ''Event not found''))"
  using assms by (simp add: unregister_def findByIdAndUpdate_def findOneAndUpdate_def)

lemma unregister_malformed:
  assumes "cast_id rawId = None"
  shows "unregister st rawId userId = (st, (500, Message ''Failed to unregister''))"
  using assms by (simp add: unregister_def)

lemma unregister_cast:
  assumes "cast_id rawId = Some eventId"
  shows "unregister st rawId userId = unregister st (toString eventId) userId"
  using assms by (simp add: unregister_def)

lemma pull_absent: "x \<notin> set xs \<Longrightarrow> pull x xs = xs"
  by (auto simp: pull_def filter_id_conv)

lemma set_pull: "set (pull x xs) = set xs - {x}"
  by (auto simp: pull_def)

lemma distinct_pull: "distinct xs \<Longrightarrow> distinct (pull x xs)"
  by (simp add: pull_def)

lemma length_pull_present:
  "distinct xs \<Longrightarrow> x \<in> set xs \<Longrightarrow> Suc (length (pull x xs)) = length xs"
proof (induction xs)
  case Nil
  then show ?case by simp
next
  case (Cons y ys)
  show ?case
  proof (cases "y = x")
    case True
    with Cons.prems have "x \<notin> set ys" by simp
    then have "pull x ys = ys" by (rule pull_absent)
    with True show ?thesis by (simp add: pull_def)
  next
    case False
    with Cons show ?thesis by (simp add: pull_def)
  qed
qed

text \<open>The definitions that evaluate a handler on a given store.\<close>

lemmas handler_defs =
  create_event_def register_def unregister_def update_event_def delete_event_def
  findOneAndUpdate_def findByIdAndUpdate_def register_filter_def size_lt_capacity_def
  addToSet_def pull_def required_def or_string_def or_number_def Let_def


section \<open>The capacity bound\<close>

lemma below_integer:
  assumes "is_integer c" and "real n < c"
  shows "real (Suc n) \<le> c"
proof -
  from assms(1) obtain k where k: "c = real_of_int k"
    by (auto simp: is_integer_def)
  with assms(2) have "int n < k" by simp
  then have "int (Suc n) \<le> k" by simp
  then have "real (Suc n) \<le> real_of_int k" by linarith
  with k show ?thesis by simp
qed

lemma length_pull_le: "length (pull x xs) \<le> length xs"
  by (simp add: pull_def)

lemma castNumber_denoted: "castNumber v = Cast (Some c) \<Longrightarrow> denoted v = Some c"
  by (cases v rule: castNumber.cases) simp_all

lemma or_number_denoted:
  "or_number v old = Cast (Some c) \<Longrightarrow> old = Some c \<or> denoted v = Some c"
  by (auto simp: or_number_def dest: castNumber_denoted split: if_splits)

lemma serve_sound:
  assumes "capacity_sound st" and "admissible st req" and "serve st req = (st', resp)"
  shows "capacity_sound st'"
proof (cases req)
  case (CreateEvent newId u b f)
  show ?thesis
  proof (cases "castNumber (body_capacity b)")
    case CastError
    with assms CreateEvent show ?thesis by (simp add: create_event_def)
  next
    case (Cast cap)
    have new: "is_integer c \<and> real (0::nat) \<le> c" if "cap = Some c" for c
      using that Cast assms(2) CreateEvent castNumber_denoted [of "body_capacity b" c]
      by simp
    from assms(1,3) CreateEvent Cast new show ?thesis
      by (auto simp: capacity_sound_def create_event_def Let_def split: if_splits)
  qed
next
  case (Register rawId u)
  show ?thesis
  proof (cases "cast_id rawId")
    case None
    with assms Register show ?thesis by (simp add: register_malformed)
  next
    case (Some i)
    note cast = register_cast [OF Some]
    show ?thesis
    proof (cases "st i")
      case None
      with assms Register show ?thesis by (simp add: cast register_missing)
    next
      case found: (Some e)
      show ?thesis
      proof (cases "register_filter u e")
        case False
        with assms Register found show ?thesis by (simp add: cast register_found)
      next
        case True
        then obtain c where c: "capacity e = Some c" "real (length (attendees e)) < c"
          by (auto simp: register_filter_def size_lt_capacity_def split: option.splits)
        with assms(1) found have int: "is_integer c"
          by (auto simp: capacity_sound_def)
        with c have "real (Suc (length (attendees e))) \<le> c"
          by (intro below_integer)
        moreover from assms(3) Register found True
        have "st' = st(i \<mapsto> e\<lparr>attendees := attendees e @ [u]\<rparr>)"
          by (simp add: cast register_found)
        ultimately show ?thesis
          using assms(1) c int by (auto simp: capacity_sound_def)
      qed
    qed
  qed
next
  case (Unregister rawId u)
  show ?thesis
  proof (cases "cast_id rawId")
    case None
    with assms Unregister show ?thesis by (simp add: unregister_malformed)
  next
    case (Some i)
    note cast = unregister_cast [OF Some]
    show ?thesis
    proof (cases "st i")
      case None
      with assms Unregister show ?thesis by (simp add: cast unregister_missing)
    next
      case found: (Some e)
      have "real (length (pull u (attendees e))) \<le> c"
        if "real (length (attendees e)) \<le> c" for c
        using that length_pull_le [of u "attendees e"] by linarith
      moreover from assms(3) Unregister found
      have "st' = st(i \<mapsto> e\<lparr>attendees := pull u (attendees e)\<rparr>)"
        by (simp add: cast unregister_found)
      ultimately show ?thesis
        using assms(1) found by (auto simp: capacity_sound_def)
    qed
  qed
next
  case (UpdateEvent rawId u b f)
  show ?thesis
  proof (cases "cast_id rawId")
    case None
    with assms UpdateEvent show ?thesis by (simp add: update_event_def)
  next
    case (Some i)
    show ?thesis
    proof (cases "st i")
      case None
      with assms UpdateEvent Some show ?thesis by (simp add: update_event_def)
    next
      case found: (Some e)
      show ?thesis
      proof (cases "createdBy e = Some u")
        case False
        with assms UpdateEvent Some found show ?thesis
          by (auto simp: update_event_def split: option.splits)
      next
        case True
        show ?thesis
        proof (cases "or_number (body_capacity b) (capacity e)")
          case CastError
          with assms UpdateEvent Some found True show ?thesis
            by (simp add: update_event_def)
        next
          case (Cast cap)
          have new: "is_integer c \<and> real (length (attendees e)) \<le> c" if "cap = Some c" for c
          proof -
            from that Cast or_number_denoted [of "body_capacity b" "capacity e" c]
            consider "capacity e = Some c" | "denoted (body_capacity b) = Some c"
              by auto
            then show ?thesis
            proof cases
              case 1
              with assms(1) found show ?thesis by (auto simp: capacity_sound_def)
            next
              case 2
              with assms(2) UpdateEvent Some found True show ?thesis by simp
            qed
          qed
          from assms(3) UpdateEvent Some found True Cast
          obtain e' where e': "st' = st(i \<mapsto> e')" "attendees e' = attendees e"
            "capacity e' = cap"
            by (auto simp: update_event_def Let_def)
          with assms(1) new show ?thesis
            by (auto simp: capacity_sound_def)
        qed
      qed
    qed
  qed
next
  case (DeleteEvent rawId u)
  with assms show ?thesis
    by (auto simp: capacity_sound_def delete_event_def split: option.splits if_splits)
qed

lemma serve_all_sound:
  "capacity_sound st \<Longrightarrow> admissible_all st reqs \<Longrightarrow> serve_all st reqs = (st', resps)
     \<Longrightarrow> capacity_sound st'"
proof (induction reqs arbitrary: st st' resps)
  case Nil
  then show ?case by simp
next
  case (Cons r rs)
  obtain st1 resp where step: "serve st r = (st1, resp)"
    by (cases "serve st r")
  obtain st2 rest where tail: "serve_all st1 rs = (st2, rest)"
    by (cases "serve_all st1 rs")
  from Cons.prems(3) step tail have "st' = st2" by simp
  from Cons.prems(2) step have adm: "admissible st r" "admissible_all st1 rs"
    by simp_all
  have "capacity_sound st1"
    using Cons.prems(1) adm(1) step by (rule serve_sound)
  then have "capacity_sound st2"
    using adm(2) tail by (rule Cons.IH)
  then show ?case
    using \<open>st' = st2\<close> by simp
qed

text \<open>
  C1, as the claim states it, fails: the owner's update stores whatever capacity the
  request gives. After an event of capacity 2 has taken two registrations, an update to
  capacity 1 is accepted, and the event then has two attendees and capacity 1.
\<close>

theorem capacity_invariant_counterexample:
  "fst (serve_all Map.empty shrink_requests) event1 =
     Some (conference\<lparr>capacity := Some 1, attendees := [''alice'', ''bob'']\<rparr>)
   \<and> \<not> capacity_ok (conference\<lparr>capacity := Some 1, attendees := [''alice'', ''bob'']\<rparr>)"
  by (simp add: shrink_requests_def handler_defs conference_body_def empty_body_def
      conference_def capacity_ok_def)

text \<open>
  C1, amended. Starting from the empty collection, after any admissible run of create,
  register, unregister, update and delete requests, every event with a capacity has at
  most that many attendees. Every register and unregister request is admissible: they
  keep the bound in every such store. Only a creation that gives a fractional or
  negative capacity, and an owner's update that gives a fractional capacity or one below
  the current number of attendees, are excluded.
\<close>

theorem capacity_invariant_guarded:
  assumes "admissible_all Map.empty reqs" and "serve_all Map.empty reqs = (st', resps)"
    and "st' eventId = Some e"
  shows "capacity_ok e"
proof -
  have "capacity_sound Map.empty"
    by (simp add: capacity_sound_def)
  then have "capacity_sound st'"
    using assms(1,2) by (rule serve_all_sound)
  with assms(3) show ?thesis
    by (auto simp: capacity_sound_def capacity_ok_def split: option.splits)
qed

theorem capacity_invariant_guarded_witness:
  "admissible_all Map.empty grow_requests
   \<and> fst (serve_all Map.empty grow_requests) event1 =
       Some (conference\<lparr>attendees := [''bob'']\<rparr>)
   \<and> capacity_ok (conference\<lparr>attendees := [''bob'']\<rparr>)"
proof -
  have adm: "admissible_all Map.empty grow_requests"
    by (simp add: grow_requests_def handler_defs conference_body_def empty_body_def
        is_integer_def)
  obtain resps where run: "serve_all Map.empty grow_requests =
      ([event1 \<mapsto> conference\<lparr>attendees := [''bob'']\<rparr>], resps)"
    by (simp add: grow_requests_def handler_defs conference_body_def empty_body_def
        conference_def)
  have "[event1 \<mapsto> conference\<lparr>attendees := [''bob'']\<rparr>] event1 =
      Some (conference\<lparr>attendees := [''bob'']\<rparr>)"
    by simp
  from capacity_invariant_guarded [OF adm run this] adm run
  show ?thesis
    by simp
qed


section \<open>Registration\<close>

text \<open>
  C2. On an existing event with a capacity, \<open>register\<close> appends the user to \<open>attendees\<close>
  exactly when the user is not yet in it and the number of attendees is strictly below
  the capacity; it then answers 200 with the count after the insertion. In every other
  case (already registered, or full) it answers the 400 rejection and the store is the
  one it was given.
\<close>

theorem register_postcondition:
  assumes "st eventId = Some e" and "capacity e = Some c"
  shows "register st (toString eventId) userId =
     (if userId \<notin> set (attendees e) \<and> real (length (attendees e)) < c
      then (st(eventId \<mapsto> e\<lparr>attendees := attendees e @ [userId]\<rparr>),
            (200, MessageCount ''Registered successfully'' (length (attendees e) + 1)))
      else (st, (400, Message ''Event is full or already registered'')))"
  using assms by (simp add: register_found register_filter_def size_lt_capacity_def)

theorem register_postcondition_witness:
  "register [event1 \<mapsto> conference] (toString event1) ''alice'' =
     ([event1 \<mapsto> conference\<lparr>attendees := [''alice'']\<rparr>],
      (200, MessageCount ''Registered successfully'' 1))
   \<and> register [event1 \<mapsto> conference\<lparr>attendees := [''alice'']\<rparr>] (toString event1) ''alice'' =
     ([event1 \<mapsto> conference\<lparr>attendees := [''alice'']\<rparr>],
      (400, Message ''Event is full or already registered''))
   \<and> register [event1 \<mapsto> conference\<lparr>attendees := [''alice'', ''bob'']\<rparr>] (toString event1)
       ''carol'' =
     ([event1 \<mapsto> conference\<lparr>attendees := [''alice'', ''bob'']\<rparr>],
      (400, Message ''Event is full or already registered''))"
proof -
  have w: "register [event1 \<mapsto> conference\<lparr>attendees := as\<rparr>] (toString event1) u =
      (if u \<notin> set as \<and> real (length as) < 2
       then ([event1 \<mapsto> conference\<lparr>attendees := as @ [u]\<rparr>],
             (200, MessageCount ''Registered successfully'' (length as + 1)))
       else ([event1 \<mapsto> conference\<lparr>attendees := as\<rparr>],
             (400, Message ''Event is full or already registered'')))" for as u
    using register_postcondition [of "[event1 \<mapsto> conference\<lparr>attendees := as\<rparr>]" event1
        "conference\<lparr>attendees := as\<rparr>" 2 u]
    by (simp add: conference_def)
  have e: "conference\<lparr>attendees := []\<rparr> = conference"
    by (simp add: conference_def)
  show ?thesis
    using w [of "[]" "''alice''"] w [of "[''alice'']" "''alice''"]
      w [of "[''alice'', ''bob'']" "''carol''"]
    by (simp add: e)
qed

section \<open>No duplicate attendee\<close>

lemma serve_unique:
  assumes "unique_attendees st" and "serve st req = (st', resp)"
  shows "unique_attendees st'"
proof (cases req)
  case (CreateEvent newId u b f)
  with assms show ?thesis
    by (auto simp: unique_attendees_def create_event_def Let_def
        split: if_splits cast.splits)
next
  case (Register rawId u)
  show ?thesis
  proof (cases "cast_id rawId")
    case None
    with assms Register show ?thesis by (simp add: register_malformed)
  next
    case (Some i)
    note cast = register_cast [OF Some]
    from assms Register show ?thesis
      by (cases "st i")
        (auto simp: unique_attendees_def cast register_found register_missing
           register_filter_def split: if_splits)
  qed
next
  case (Unregister rawId u)
  show ?thesis
  proof (cases "cast_id rawId")
    case None
    with assms Unregister show ?thesis by (simp add: unregister_malformed)
  next
    case (Some i)
    note cast = unregister_cast [OF Some]
    from assms Unregister show ?thesis
      by (cases "st i")
        (auto simp: unique_attendees_def cast unregister_found unregister_missing
           distinct_pull split: if_splits)
  qed
next
  case (UpdateEvent rawId u b f)
  with assms show ?thesis
    by (auto simp: unique_attendees_def update_event_def Let_def
        split: option.splits if_splits cast.splits)
next
  case (DeleteEvent rawId u)
  with assms show ?thesis
    by (auto simp: unique_attendees_def delete_event_def split: option.splits if_splits)
qed

lemma serve_all_unique:
  "unique_attendees st \<Longrightarrow> serve_all st reqs = (st', resps) \<Longrightarrow> unique_attendees st'"
proof (induction reqs arbitrary: st st' resps)
  case Nil
  then show ?case by simp
next
  case (Cons r rs)
  obtain st1 resp where step: "serve st r = (st1, resp)"
    by (cases "serve st r")
  obtain st2 rest where tail: "serve_all st1 rs = (st2, rest)"
    by (cases "serve_all st1 rs")
  from Cons.prems(2) step tail have "st' = st2" by simp
  moreover have "unique_attendees st1"
    using Cons.prems(1) step by (rule serve_unique)
  ultimately show ?case
    using Cons.IH tail by blast
qed

lemma rsvp_run:
  "serve_all Map.empty rsvp_requests =
     ([event1 \<mapsto> conference\<lparr>attendees := [''alice'', ''bob'']\<rparr>],
      [(201, Document conference),
       (200, MessageCount ''Registered successfully'' 1),
       (400, Message ''Event is full or already registered''),
       (200, MessageCount ''Unregistered successfully'' 1),
       (200, MessageCount ''Registered successfully'' 2),
       (400, Message ''Event is full or already registered'')])"
  by (simp add: rsvp_requests_def handler_defs conference_body_def conference_def)

text \<open>
  C3. In a collection where no event lists a user twice, that is still so after any
  sequence of requests (registrations, unregistrations, and creations, updates and
  deletions as well); the empty collection is such a collection, and a created event
  starts with no attendee. A registration by a user who already is an attendee is
  answered with the 400 rejection and returns the store it was given, so
  \<open>attendees\<close> does not grow.
\<close>

theorem no_duplicate_invariant:
  "(unique_attendees st \<and> serve_all st reqs = (st', resps) \<longrightarrow> unique_attendees st')
   \<and> unique_attendees Map.empty
   \<and> (st eventId = Some e \<and> userId \<in> set (attendees e) \<longrightarrow>
        register st (toString eventId) userId =
          (st, (400, Message ''Event is full or already registered'')))"
  using serve_all_unique [of st reqs st' resps]
  by (auto simp: unique_attendees_def register_found register_filter_def)

theorem no_duplicate_invariant_witness:
  "map_option (\<lambda>e. distinct (attendees e)) (fst (serve_all Map.empty rsvp_requests) event1)
     = Some True
   \<and> register [event1 \<mapsto> conference\<lparr>attendees := [''alice'', ''bob'']\<rparr>] (toString event1)
       ''bob'' =
       ([event1 \<mapsto> conference\<lparr>attendees := [''alice'', ''bob'']\<rparr>],
        (400, Message ''Event is full or already registered''))"
proof -
  let ?st' = "[event1 \<mapsto> conference\<lparr>attendees := [''alice'', ''bob'']\<rparr>]"
  note inv = no_duplicate_invariant [of Map.empty rsvp_requests ?st', unfolded rsvp_run]
  note dup = no_duplicate_invariant [of ?st' _ _ _ event1
      "conference\<lparr>attendees := [''alice'', ''bob'']\<rparr>" "''bob''"]
  from inv have "unique_attendees ?st'" by simp
  then have "?st' event1 = Some (conference\<lparr>attendees := [''alice'', ''bob'']\<rparr>) \<longrightarrow>
      distinct (attendees (conference\<lparr>attendees := [''alice'', ''bob'']\<rparr>))"
    unfolding unique_attendees_def by blast
  then have "distinct (attendees (conference\<lparr>attendees := [''alice'', ''bob'']\<rparr>))"
    by simp
  moreover from dup have "register ?st' (toString event1) ''bob'' =
       (?st', (400, Message ''Event is full or already registered''))"
    by simp
  ultimately show ?thesis
    by (simp add: rsvp_run)
qed

section \<open>The cardinality of a run of registrations\<close>

lemma register_all_from:
  assumes "st eventId = Some e" and "capacity e = Some (real C)"
    and "distinct (attendees e)" and "length (attendees e) \<le> C"
    and "serve_all st (map (Register (toString eventId)) users) = (st', resps)"
  shows "(\<exists>e'. st' eventId = Some e'
            \<and> length (attendees e') = min C (card (set (attendees e) \<union> set users)))
       \<and> length (filter accepted resps) + length (attendees e)
            = min C (card (set (attendees e) \<union> set users))
       \<and> length (filter accepted resps) + length (filter rejected resps) = length users"
  using assms
proof (induction users arbitrary: st e st' resps)
  case Nil
  then show ?case
    by (simp add: distinct_card)
next
  case (Cons u us)
  let ?as = "attendees e"
  let ?reqs = "map (Register (toString eventId)) us"
  obtain st1 resp where step: "register st (toString eventId) u = (st1, resp)"
    by (cases "register st (toString eventId) u")
  obtain st2 rest where tail: "serve_all st1 ?reqs = (st2, rest)"
    by (cases "serve_all st1 ?reqs")
  from Cons.prems(5) step tail have res: "st' = st2" "resps = resp # rest"
    by simp_all
  have card_as: "card (set ?as) = length ?as"
    using Cons.prems(3) by (rule distinct_card)
  show ?case
  proof (cases "register_filter u e")
    case True
    let ?e1 = "e\<lparr>attendees := ?as @ [u]\<rparr>"
    from True have fresh: "u \<notin> set ?as" and room: "length ?as < C"
      using Cons.prems(2) by (simp_all add: register_filter_def size_lt_capacity_def)
    from step True Cons.prems(1)
    have st1: "st1 = st(eventId \<mapsto> ?e1)" and ok: "accepted resp" "\<not> rejected resp"
      by (auto simp: register_found accepted_def rejected_def)
    have "st1 eventId = Some ?e1" "capacity ?e1 = Some (real C)"
      "distinct (attendees ?e1)" "length (attendees ?e1) \<le> C"
      using st1 Cons.prems(2,3) fresh room by simp_all
    from Cons.IH [OF this tail]
    have ih: "(\<exists>e'. st2 eventId = Some e'
            \<and> length (attendees e') = min C (card (set (attendees ?e1) \<union> set us)))
       \<and> length (filter accepted rest) + length (attendees ?e1)
            = min C (card (set (attendees ?e1) \<union> set us))
       \<and> length (filter accepted rest) + length (filter rejected rest) = length us" .
    have same: "set (attendees ?e1) \<union> set us = set ?as \<union> set (u # us)"
      by auto
    show ?thesis
      using ih ok unfolding same res by simp
  next
    case False
    from step False Cons.prems(1)
    have st1: "st1 = st" and no: "\<not> accepted resp" "rejected resp"
      by (auto simp: register_found accepted_def rejected_def)
    from Cons.IH [OF Cons.prems(1-4) tail [unfolded st1]]
    have ih: "(\<exists>e'. st2 eventId = Some e'
            \<and> length (attendees e') = min C (card (set ?as \<union> set us)))
       \<and> length (filter accepted rest) + length ?as = min C (card (set ?as \<union> set us))
       \<and> length (filter accepted rest) + length (filter rejected rest) = length us" .
    have same: "min C (card (set ?as \<union> set (u # us))) = min C (card (set ?as \<union> set us))"
    proof (cases "u \<in> set ?as")
      case True
      then have "set ?as \<union> set (u # us) = set ?as \<union> set us" by auto
      then show ?thesis by simp
    next
      case False
      with \<open>\<not> register_filter u e\<close> Cons.prems(2,4) have full: "length ?as = C"
        by (simp add: register_filter_def size_lt_capacity_def)
      have "card (set ?as) \<le> card (set ?as \<union> X)" if "finite X" for X
        using that by (intro card_mono) auto
      then have "C \<le> card (set ?as \<union> set us)" "C \<le> card (set ?as \<union> set (u # us))"
        using card_as full by (metis List.finite_set)+
      then show ?thesis by simp
    qed
    show ?thesis
      using ih no unfolding same res by simp
  qed
qed

text \<open>
  C4. On an event with no attendee yet and a capacity \<open>C\<close> (a natural number), after
  registrations for any list of users, repetitions included, the event has
  \<open>min C d\<close> attendees, where \<open>d\<close> is the number of distinct users in the list;
  exactly that many of the requests are accepted and all the others are rejected.
\<close>

theorem cardinality_guarantee:
  assumes "st eventId = Some e" and "attendees e = []" and "capacity e = Some (real C)"
    and "serve_all st (map (Register (toString eventId)) users) = (st', resps)"
  shows "map_option (\<lambda>e'. length (attendees e')) (st' eventId) = Some (min C (card (set users)))
       \<and> length (filter accepted resps) = min C (card (set users))
       \<and> length (filter rejected resps) = length users - min C (card (set users))"
proof -
  have "distinct (attendees e)" "length (attendees e) \<le> C"
    using assms(2) by simp_all
  from register_all_from [OF assms(1,3) this assms(4)] assms(2)
  show ?thesis
    by auto
qed

theorem cardinality_guarantee_witness:
  "serve_all [event1 \<mapsto> conference]
      (map (Register (toString event1)) [''alice'', ''bob'', ''alice'', ''carol'']) =
     ([event1 \<mapsto> conference\<lparr>attendees := [''alice'', ''bob'']\<rparr>],
      [(200, MessageCount ''Registered successfully'' 1),
       (200, MessageCount ''Registered successfully'' 2),
       (400, Message ''Event is full or already registered''),
       (400, Message ''Event is full or already registered'')])
   \<and> min (2::nat) (card (set [''alice'', ''bob'', ''alice'', ''carol''])) = 2
   \<and> length (filter accepted
        [(200, MessageCount ''Registered successfully'' 1),
         (200, MessageCount ''Registered successfully'' 2),
         (400, Message ''Event is full or already registered''),
         (400, Message ''Event is full or already registered'')]) = 2
   \<and> length (filter rejected
        [(200, MessageCount ''Registered successfully'' 1),
         (200, MessageCount ''Registered successfully'' 2),
         (400, Message ''Event is full or already registered''),
         (400, Message ''Event is full or already registered'')]) = 2"
proof -
  let ?users = "[''alice'', ''bob'', ''alice'', ''carol'']"
  let ?st' = "[event1 \<mapsto> conference\<lparr>attendees := [''alice'', ''bob'']\<rparr>]"
  let ?resps = "[(200, MessageCount ''Registered successfully'' 1),
       (200, MessageCount ''Registered successfully'' 2),
       (400, Message ''Event is full or already registered''),
       (400, Message ''Event is full or already registered'')]"
  have run: "serve_all [event1 \<mapsto> conference] (map (Register (toString event1)) ?users) =
      (?st', ?resps)"
    by (simp add: handler_defs conference_def)
  have pre: "[event1 \<mapsto> conference] event1 = Some conference" "attendees conference = []"
    "capacity conference = Some (real 2)"
    by (simp_all add: conference_def)
  have n: "card (set ?users) = 3"
    by (simp add: card_insert_if)
  from cardinality_guarantee [OF pre run]
  have "length (filter accepted ?resps) = min 2 (card (set ?users))"
    and "length (filter rejected ?resps) = length ?users - min 2 (card (set ?users))"
    by blast+
  then show ?thesis
    using run n by simp
qed

section \<open>Registration on a missing event\<close>

text \<open>
  C5. For a well-formed identifier that names no event, \<open>register\<close> answers with the
  same 400 document as for a repeated registration on an existing event, where
  \<open>unregister\<close> answers 404 "Event not found"; the store stays empty.
\<close>

theorem register_nonexistent_event:
  "register Map.empty ''65a1f0c2d3e4b5a697887701'' ''alice'' =
     (Map.empty, (400, Message ''Event is full or already registered''))
   \<and> register [event2 \<mapsto> conference\<lparr>attendees := [''alice'']\<rparr>]
       ''65a1f0c2d3e4b5a697887702'' ''alice'' =
     ([event2 \<mapsto> conference\<lparr>attendees := [''alice'']\<rparr>],
      (400, Message ''Event is full or already registered''))
   \<and> unregister Map.empty ''65a1f0c2d3e4b5a697887701'' ''alice'' =
     (Map.empty, (404, Message ''Event not found''))"
  unfolding event1_string [symmetric] event2_string [symmetric]
  by (simp add: register_missing unregister_missing register_found register_filter_def)

section \<open>Unregistration\<close>

text \<open>
  C6, as the claim states it, fails: a route parameter that is not an ObjectId names no
  event, and the answer to it is not "not found" but the 500 of the handler's \<open>catch\<close>.
\<close>

theorem unregister_not_found_counterexample:
  "cast_id ''X'' = None
   \<and> unregister [event1 \<mapsto> conference] ''X'' ''alice'' =
       ([event1 \<mapsto> conference], (500, Message ''Failed to unregister''))"
  by (simp add: cast_malformed unregister_malformed)

text \<open>
  C6, amended. When the route parameter is not a well-formed identifier, \<open>unregister\<close>
  answers 500 "Failed to unregister" and leaves the store alone. When it is one,
  \<open>unregister\<close> answers 404 exactly when no event has that identifier, and then leaves
  the store alone; on an existing event it answers 200 with the number of attendees
  left, the user is no longer an attendee and every other attendee stays; when the user
  was not an attendee the store is unchanged and the count is the old one; when the user
  was one (in a list without repetitions) the count is one less. Over all parameters,
  the answer is 404 exactly when the parameter is a well-formed identifier that names no
  event. A second \<open>unregister\<close> gives the same answer and the same store as the first.
\<close>

theorem unregister_semantics:
  "(cast_id rawId = None \<longrightarrow>
      unregister st rawId userId = (st, (500, Message ''Failed to unregister'')))
   \<and> (\<forall>eventId. cast_id rawId = Some eventId \<longrightarrow>
        (st eventId = None \<longrightarrow>
           unregister st rawId userId = (st, (404, Message ''Event not found'')))
        \<and> (\<forall>e. st eventId = Some e \<longrightarrow>
             (\<exists>e'. unregister st rawId userId =
                      (st(eventId \<mapsto> e'),
                       (200, MessageCount ''Unregistered successfully''
                               (length (attendees e'))))
                  \<and> userId \<notin> set (attendees e')
                  \<and> set (attendees e') = set (attendees e) - {userId}
                  \<and> (userId \<notin> set (attendees e) \<longrightarrow> e' = e \<and> st(eventId \<mapsto> e') = st)
                  \<and> (userId \<in> set (attendees e) \<and> distinct (attendees e) \<longrightarrow>
                       length (attendees e') + 1 = length (attendees e)))))
   \<and> (fst (snd (unregister st rawId userId)) = 404 \<longleftrightarrow>
        (\<exists>eventId. cast_id rawId = Some eventId \<and> st eventId = None))
   \<and> (\<forall>st1 r1. unregister st rawId userId = (st1, r1) \<longrightarrow>
        unregister st1 rawId userId = (st1, r1))"
proof (cases "cast_id rawId")
  case None
  then show ?thesis by (simp add: unregister_malformed)
next
  case cast: (Some eventId)
  note to_id = unregister_cast [OF cast]
  show ?thesis
  proof (cases "st eventId")
    case None
    then show ?thesis by (simp add: cast to_id unregister_missing)
  next
    case (Some e)
    let ?e' = "e\<lparr>attendees := pull userId (attendees e)\<rparr>"
    have first: "unregister st rawId userId =
        (st(eventId \<mapsto> ?e'),
         (200, MessageCount ''Unregistered successfully'' (length (attendees ?e'))))"
      using Some by (simp add: to_id unregister_found)
    have gone: "userId \<notin> set (attendees ?e')"
      by (simp add: set_pull)
    have rest: "set (attendees ?e') = set (attendees e) - {userId}"
      by (simp add: set_pull)
    have noop: "?e' = e \<and> st(eventId \<mapsto> ?e') = st" if "userId \<notin> set (attendees e)"
      using that Some by (simp add: pull_absent map_upd_triv)
    have less: "length (attendees ?e') + 1 = length (attendees e)"
      if "userId \<in> set (attendees e) \<and> distinct (attendees e)"
      using that length_pull_present [of "attendees e" userId] by simp
    have "pull userId (pull userId (attendees e)) = pull userId (attendees e)"
      by (rule pull_absent) (simp add: set_pull)
    then have again: "unregister (st(eventId \<mapsto> ?e')) rawId userId =
        (st(eventId \<mapsto> ?e'),
         (200, MessageCount ''Unregistered successfully'' (length (attendees ?e'))))"
      by (simp add: to_id unregister_found [of "st(eventId \<mapsto> ?e')" eventId ?e'])
    have ex: "\<exists>e'. unregister st rawId userId =
                   (st(eventId \<mapsto> e'),
                    (200, MessageCount ''Unregistered successfully'' (length (attendees e'))))
               \<and> userId \<notin> set (attendees e')
               \<and> set (attendees e') = set (attendees e) - {userId}
               \<and> (userId \<notin> set (attendees e) \<longrightarrow> e' = e \<and> st(eventId \<mapsto> e') = st)
               \<and> (userId \<in> set (attendees e) \<and> distinct (attendees e) \<longrightarrow>
                    length (attendees e') + 1 = length (attendees e))"
      using first gone rest noop less by blast
    have status: "fst (snd (unregister st rawId userId)) = 200"
      by (simp add: first)
    show ?thesis
      using Some cast ex status again first by simp
  qed
qed

theorem unregister_semantics_witness:
  "unregister [event1 \<mapsto> conference\<lparr>attendees := [''alice'', ''bob'']\<rparr>] (toString event1)
      ''alice'' =
     ([event1 \<mapsto> conference\<lparr>attendees := [''bob'']\<rparr>],
      (200, MessageCount ''Unregistered successfully'' 1))
   \<and> unregister [event1 \<mapsto> conference\<lparr>attendees := [''bob'']\<rparr>] (toString event1) ''alice'' =
     ([event1 \<mapsto> conference\<lparr>attendees := [''bob'']\<rparr>],
      (200, MessageCount ''Unregistered successfully'' 1))
   \<and> unregister [event1 \<mapsto> conference] (toString event2) ''alice'' =
     ([event1 \<mapsto> conference], (404, Message ''Event not found''))
   \<and> unregister [event1 \<mapsto> conference] ''X'' ''alice'' =
     ([event1 \<mapsto> conference], (500, Message ''Failed to unregister''))"
proof -
  let ?st = "[event1 \<mapsto> conference\<lparr>attendees := [''alice'', ''bob'']\<rparr>]"
  let ?st1 = "[event1 \<mapsto> conference\<lparr>attendees := [''bob'']\<rparr>]"
  have first: "unregister ?st (toString event1) ''alice'' =
      (?st1, (200, MessageCount ''Unregistered successfully'' 1))"
    by (simp add: unregister_found pull_def)
  have missing: "cast_id (toString event2) = Some event2"
    "[event1 \<mapsto> conference] event2 = None"
    by (simp_all add: event1_not_event2)
  from unregister_semantics [of "toString event1" ?st "''alice''"] first
  have "unregister ?st1 (toString event1) ''alice'' =
      (?st1, (200, MessageCount ''Unregistered successfully'' 1))"
    by blast
  moreover
  from unregister_semantics [of "toString event2" "[event1 \<mapsto> conference]" "''alice''"] missing
  have "unregister [event1 \<mapsto> conference] (toString event2) ''alice'' =
      ([event1 \<mapsto> conference], (404, Message ''Event not found''))"
    by blast
  moreover
  from unregister_semantics [of "''X''" "[event1 \<mapsto> conference]" "''alice''"] cast_malformed
  have "unregister [event1 \<mapsto> conference] ''X'' ''alice'' =
      ([event1 \<mapsto> conference], (500, Message ''Failed to unregister''))"
    by blast
  ultimately show ?thesis
    using first by simp
qed


section \<open>Register, unregister, register\<close>

text \<open>
  C7. When the user is not an attendee and the number of attendees is below the
  capacity (a seat is free, so the capacity is positive), the three requests register,
  unregister, register of that user on that event are all answered 200: both
  registrations succeed. The unregistration gives back the store from before, and the
  second registration the store after the first.
\<close>

theorem no_permanent_lockout:
  assumes "st eventId = Some e" and "capacity e = Some c"
    and "userId \<notin> set (attendees e)" and "real (length (attendees e)) < c"
  shows "serve_all st [Register (toString eventId) userId, Unregister (toString eventId) userId,
                       Register (toString eventId) userId] =
     (st(eventId \<mapsto> e\<lparr>attendees := attendees e @ [userId]\<rparr>),
      [(200, MessageCount ''Registered successfully'' (length (attendees e) + 1)),
       (200, MessageCount ''Unregistered successfully'' (length (attendees e))),
       (200, MessageCount ''Registered successfully'' (length (attendees e) + 1))])"
proof -
  let ?e1 = "e\<lparr>attendees := attendees e @ [userId]\<rparr>"
  let ?st1 = "st(eventId \<mapsto> ?e1)"
  have ok: "register_filter userId e"
    using assms by (simp add: register_filter_def size_lt_capacity_def)
  have r1: "register st (toString eventId) userId =
      (?st1, (200, MessageCount ''Registered successfully'' (length (attendees e) + 1)))"
    using assms(1) ok by (simp add: register_found)
  have restored: "pull userId (attendees e @ [userId]) = attendees e"
    using assms(3) by (auto simp: pull_def filter_id_conv)
  have "?st1(eventId \<mapsto> ?e1\<lparr>attendees := pull userId (attendees ?e1)\<rparr>) = st"
    using assms(1) by (simp add: restored map_upd_triv)
  then have r2: "unregister ?st1 (toString eventId) userId =
      (st, (200, MessageCount ''Unregistered successfully'' (length (attendees e))))"
    by (simp add: unregister_found [of ?st1 eventId ?e1] restored)
  show ?thesis
    by (simp add: r1 r2)
qed

theorem no_permanent_lockout_witness:
  "serve_all [event1 \<mapsto> conference\<lparr>attendees := [''bob'']\<rparr>]
     [Register (toString event1) ''alice'', Unregister (toString event1) ''alice'',
      Register (toString event1) ''alice''] =
     ([event1 \<mapsto> conference\<lparr>attendees := [''bob'', ''alice'']\<rparr>],
      [(200, MessageCount ''Registered successfully'' 2),
       (200, MessageCount ''Unregistered successfully'' 1),
       (200, MessageCount ''Registered successfully'' 2)])"
  using no_permanent_lockout [of "[event1 \<mapsto> conference\<lparr>attendees := [''bob'']\<rparr>]" event1
      "conference\<lparr>attendees := [''bob'']\<rparr>" 2 "''alice''"]
  by (simp add: conference_def)

section \<open>Events without a capacity\<close>

text \<open>
  C8, as the claim states it, fails: on an event stored without a capacity a user who is
  not an attendee is rejected.
\<close>

theorem unbounded_capacity_counterexample:
  "capacity open_house = None \<and> ''alice'' \<notin> set (attendees open_house)
   \<and> register [event1 \<mapsto> open_house] (toString event1) ''alice'' =
       ([event1 \<mapsto> open_house], (400, Message ''Event is full or already registered''))"
  by (simp add: register_found register_filter_def size_lt_capacity_def open_house_def)

text \<open>
  C8, amended. On an event whose capacity is not set, \<open>register\<close> rejects every user with
  the 400 answer and leaves the store unchanged: the size is never below an absent
  capacity, so a registration needs a stored capacity above the number of attendees.
\<close>

theorem register_without_capacity:
  assumes "st eventId = Some e" and "capacity e = None"
  shows "register st (toString eventId) userId =
     (st, (400, Message ''Event is full or already registered''))"
  using assms by (simp add: register_found register_filter_def size_lt_capacity_def)

theorem register_without_capacity_witness:
  "register [event1 \<mapsto> open_house] (toString event1) ''bob'' =
     ([event1 \<mapsto> open_house], (400, Message ''Event is full or already registered''))"
  using register_without_capacity [of "[event1 \<mapsto> open_house]" event1 open_house "''bob''"]
  by (simp add: open_house_def)

section \<open>Ownership\<close>

text \<open>
  C9. On an existing event created by \<open>owner\<close>, an update and a delete requested by
  another user are answered 403 "Unauthorized" and return the store unchanged. No
  request of any kind changes the capacity of that event unless it is an update of that
  event requested by its owner.
\<close>

theorem owner_only_mutation:
  assumes "st eventId = Some e" and "createdBy e = Some owner"
  shows "(userId \<noteq> owner \<longrightarrow>
            update_event st (toString eventId) userId body file =
              (st, (403, Message ''Unauthorized''))
          \<and> delete_event st (toString eventId) userId = (st, (403, Message ''Unauthorized'')))
       \<and> (\<forall>req st' resp e'. serve st req = (st', resp) \<and> st' eventId = Some e'
              \<and> capacity e' \<noteq> capacity e \<longrightarrow>
            (\<exists>rawId body' file'. req = UpdateEvent rawId owner body' file'
                \<and> cast_id rawId = Some eventId))"
proof -
  have denied: "update_event st (toString eventId) userId body file =
        (st, (403, Message ''Unauthorized''))
      \<and> delete_event st (toString eventId) userId = (st, (403, Message ''Unauthorized''))"
    if "userId \<noteq> owner"
    using that assms by (simp add: update_event_def delete_event_def)
  have only: "\<exists>rawId body' file'. req = UpdateEvent rawId owner body' file'
        \<and> cast_id rawId = Some eventId"
    if run: "serve st req = (st', resp)" and after: "st' eventId = Some e'"
      and changed: "capacity e' \<noteq> capacity e" for req st' resp e'
  proof (cases req)
    case (CreateEvent newId u b f)
    with run after changed assms(1) show ?thesis
      by (auto simp: create_event_def Let_def split: if_splits cast.splits)
  next
    case (Register rawId u)
    show ?thesis
    proof (cases "cast_id rawId")
      case None
      with run after changed assms(1) Register show ?thesis
        by (simp add: register_malformed)
    next
      case (Some i)
      note cast = register_cast [OF Some]
      from run after changed assms(1) Register show ?thesis
        by (cases "st i")
          (auto simp: cast register_found register_missing split: if_splits)
    qed
  next
    case (Unregister rawId u)
    show ?thesis
    proof (cases "cast_id rawId")
      case None
      with run after changed assms(1) Unregister show ?thesis
        by (simp add: unregister_malformed)
    next
      case (Some i)
      note cast = unregister_cast [OF Some]
      from run after changed assms(1) Unregister show ?thesis
        by (cases "st i")
          (auto simp: cast unregister_found unregister_missing split: if_splits)
    qed
  next
    case (UpdateEvent rawId u b f)
    with run after changed assms show ?thesis
      by (auto simp: update_event_def Let_def split: option.splits if_splits cast.splits)
  next
    case (DeleteEvent rawId u)
    with run after changed assms(1) show ?thesis
      by (auto simp: delete_event_def split: option.splits if_splits)
  qed
  show ?thesis
    using denied only by blast
qed

theorem owner_only_mutation_witness:
  "update_event [event1 \<mapsto> conference] (toString event1) ''mallory''
      (empty_body (Some (NumericString 100))) None =
     ([event1 \<mapsto> conference], (403, Message ''Unauthorized''))
   \<and> delete_event [event1 \<mapsto> conference] (toString event1) ''mallory'' =
     ([event1 \<mapsto> conference], (403, Message ''Unauthorized''))"
  using owner_only_mutation [of "[event1 \<mapsto> conference]" event1 conference "''owner''"
      "''mallory''" "empty_body (Some (NumericString 100))" None]
  by (simp add: conference_def)

section \<open>Frame of the ledger operations\<close>

text \<open>
  C10. A register or an unregister request leaves every event other than the one its
  parameter names as it was, creates no event, and on the event it names changes at most
  \<open>attendees\<close>: title, description, date, location, capacity, image and createdBy are
  the ones from before, whether the request succeeds or not.
\<close>

theorem ledger_frame:
  assumes "req = Register rawId userId \<or> req = Unregister rawId userId"
    and "serve st req = (st', resp)"
  shows "(\<forall>other. cast_id rawId \<noteq> Some other \<longrightarrow> st' other = st other)
       \<and> (\<forall>eventId. st eventId = None \<longrightarrow> st' eventId = None)
       \<and> (\<forall>eventId e. st eventId = Some e \<longrightarrow>
            (\<exists>e'. st' eventId = Some e'
                 \<and> title e' = title e \<and> description e' = description e
                 \<and> date e' = date e \<and> location e' = location e
                 \<and> capacity e' = capacity e \<and> image_file e' = image_file e
                 \<and> createdBy e' = createdBy e))"
proof (cases "cast_id rawId")
  case None
  with assms show ?thesis
    by (auto simp: register_malformed unregister_malformed)
next
  case cast: (Some i)
  note to_id = register_cast [OF cast] unregister_cast [OF cast]
  show ?thesis
  proof (cases "st i")
    case None
    with assms cast show ?thesis
      by (auto simp: to_id register_missing unregister_missing)
  next
    case (Some e)
    with assms cast show ?thesis
      by (auto simp: to_id register_found unregister_found split: if_splits)
  qed
qed

theorem ledger_frame_witness:
  "map_option title
     (fst (serve [event1 \<mapsto> conference, event2 \<mapsto> open_house]
             (Register (toString event1) ''alice'')) event1) = Some ''Conference''
   \<and> map_option capacity
     (fst (serve [event1 \<mapsto> conference, event2 \<mapsto> open_house]
             (Register (toString event1) ''alice'')) event1) = Some (Some 2)
   \<and> fst (serve [event1 \<mapsto> conference, event2 \<mapsto> open_house]
             (Register (toString event1) ''alice'')) event2 = Some open_house"
proof -
  let ?st = "[event1 \<mapsto> conference, event2 \<mapsto> open_house]"
  obtain st' resp where run: "serve ?st (Register (toString event1) ''alice'') = (st', resp)"
    by (cases "serve ?st (Register (toString event1) ''alice'')")
  have pre: "?st event1 = Some conference" "?st event2 = Some open_house"
    "cast_id (toString event1) \<noteq> Some event2"
    by (simp_all add: event1_not_event2)
  have after: "fst (serve ?st (Register (toString event1) ''alice'')) = st'"
    using run by (simp only: fst_conv)
  have kind: "Register (toString event1) ''alice'' = Register (toString event1) ''alice''
      \<or> Register (toString event1) ''alice'' = Unregister (toString event1) ''alice''"
    by simp
  note frame = ledger_frame [OF kind run]
  from frame have "cast_id (toString event1) \<noteq> Some event2 \<longrightarrow> st' event2 = ?st event2"
    by blast
  with pre have other: "st' event2 = Some open_house"
    by simp
  from frame have "?st event1 = Some conference \<longrightarrow>
      (\<exists>e'. st' event1 = Some e' \<and> title e' = title conference
           \<and> capacity e' = capacity conference)"
    by blast
  with pre have "\<exists>e'. st' event1 = Some e' \<and> title e' = title conference
           \<and> capacity e' = capacity conference"
    by simp
  with other have "st' event2 = Some open_house"
    and "\<exists>e'. st' event1 = Some e' \<and> title e' = title conference
           \<and> capacity e' = capacity conference"
    by simp_all
  then show ?thesis
    unfolding after by (auto simp: conference_def)
qed

end
